theory Spec2Isabelle
  imports Complex_Main "HOL-Library.Product_Lexorder"
begin

section \<open>Response-time analysis for fixed-priority scheduling\<close>

text \<open>
  A shallow embedding of \<^verbatim>\<open>rta/models.py\<close>, \<^verbatim>\<open>rta/analysis.py\<close> and
  \<^verbatim>\<open>rta/generators.py\<close>. Python's \<^verbatim>\<open>float\<close> is modelled by \<open>real\<close>
  (exact arithmetic, no rounding, no NaN or infinity), Python's \<^verbatim>\<open>int\<close> by \<open>int\<close>,
  \<^verbatim>\<open>Optional[x]\<close> by \<open>x option\<close>, and a raised exception by the left summand of
  a sum type.
\<close>

subsection \<open>Exceptions\<close>

text \<open>
  Every \<^verbatim>\<open>raise\<close> of the three modules raises the builtin \<^verbatim>\<open>ValueError\<close> with
  an f-string message. A message is kept as the list of its fragments, so that an
  interpolated float needs no decimal rendering.
\<close>

datatype frag = Str string | Num real

datatype error = ValueError "frag list"

fun exc_class :: "error \<Rightarrow> string" where
  "exc_class (ValueError msg) = ''ValueError''"

fun message :: "error \<Rightarrow> frag list" where
  "message (ValueError msg) = msg"

subsection \<open>Task (models.py)\<close>

text \<open>
  The frozen dataclass \<^verbatim>\<open>Task\<close>. After \<^verbatim>\<open>__post_init__\<close> the field \<^verbatim>\<open>D\<close> always
  holds a float, so the record field is a \<open>real\<close>; the optional argument is a parameter
  of the constructor \<open>Task_init\<close>.
\<close>

record Task =
  C :: real
  T :: real
  D :: real
  name :: string
  priority :: "int option"

definition Task_init :: "real \<Rightarrow> real \<Rightarrow> real option \<Rightarrow> string \<Rightarrow> int option \<Rightarrow> error + Task" where
  "Task_init c t d nm prio =
     (if c \<le> 0 then
        Inl (ValueError [Str ''Task '', Str nm, Str '': C must be positive, got '', Num c])
      else if t \<le> 0 then
        Inl (ValueError [Str ''Task '', Str nm, Str '': T must be positive, got '', Num t])
      else if c > t then
        Inl (ValueError [Str ''Task '', Str nm, Str '': C ('', Num c,
                         Str '') cannot exceed T ('', Num t, Str '')''])
      else
        (case d of
           None \<Rightarrow>
             (if c > t then
                Inl (ValueError [Str ''Task '', Str nm, Str '': C ('', Num c,
                                 Str '') cannot exceed D ('', Num t, Str '')''])
              else Inr \<lparr>C = c, T = t, D = t, name = nm, priority = prio\<rparr>)
         | Some d' \<Rightarrow>
             (if d' \<le> 0 then
                Inl (ValueError [Str ''Task '', Str nm, Str '': D must be positive, got '', Num d'])
              else if d' > t then
                Inl (ValueError [Str ''Task '', Str nm, Str '': D ('', Num d',
                                 Str '') cannot exceed T ('', Num t, Str '')''])
              else if c > d' then
                Inl (ValueError [Str ''Task '', Str nm, Str '': C ('', Num c,
                                 Str '') cannot exceed D ('', Num d', Str '')''])
              else Inr \<lparr>C = c, T = t, D = d', name = nm, priority = prio\<rparr>)))"

text \<open>The invariant every constructed \<^verbatim>\<open>Task\<close> satisfies (the checks of \<^verbatim>\<open>__post_init__\<close>).\<close>

definition valid_Task :: "Task \<Rightarrow> bool" where
  "valid_Task t \<longleftrightarrow> 0 < C t \<and> 0 < T t \<and> C t \<le> T t \<and> 0 < D t \<and> D t \<le> T t \<and> C t \<le> D t"

definition utilization :: "Task \<Rightarrow> real" where
  "utilization t = C t / T t"

subsection \<open>compute\_response\_time (analysis.py)\<close>

text \<open>
  The inner loop \<^verbatim>\<open>for hp_task in higher_priority_tasks\<close> with its accumulator
  \<^verbatim>\<open>interference\<close>. \<^verbatim>\<open>math.ceil\<close> returns an int, multiplied by the float \<^verbatim>\<open>hp_task.C\<close>.
  The division \<^verbatim>\<open>R_prev / hp_task.T\<close> is defined because a constructed Task has \<open>T > 0\<close>.
\<close>

fun interference_loop :: "Task list \<Rightarrow> real \<Rightarrow> real \<Rightarrow> real" where
  "interference_loop [] R_prev interference = interference"
| "interference_loop (hp_task # rest) R_prev interference =
     interference_loop rest R_prev
       (interference + of_int \<lceil>R_prev / T hp_task\<rceil> * C hp_task)"

text \<open>
  The outer loop \<^verbatim>\<open>for iteration in range(max_iterations)\<close>: the first argument counts
  the iterations that remain. Falling out of the loop returns \<^verbatim>\<open>None\<close>.
\<close>

fun rta_loop :: "nat \<Rightarrow> Task \<Rightarrow> Task list \<Rightarrow> real \<Rightarrow> real option" where
  "rta_loop 0 task higher_priority_tasks R_prev = None"
| "rta_loop (Suc n) task higher_priority_tasks R_prev =
     (let R_new = C task + interference_loop higher_priority_tasks R_prev 0 in
      if R_new > D task then None
      else if \<bar>R_new - R_prev\<bar> < 1 / 10 ^ 9 then Some R_new
      else rta_loop n task higher_priority_tasks R_new)"

definition compute_response_time :: "Task \<Rightarrow> Task list \<Rightarrow> int \<Rightarrow> real option" where
  "compute_response_time task higher_priority_tasks max_iterations =
     rta_loop (nat max_iterations) task higher_priority_tasks (C task)"

definition is_schedulable :: "Task \<Rightarrow> Task list \<Rightarrow> bool" where
  "is_schedulable task higher_priority_tasks \<longleftrightarrow>
     compute_response_time task higher_priority_tasks 1000 \<noteq> None"

text \<open>
  The recurrence of the module's docstring, \<open>R\<^sup>0 = C\<close> and
  \<open>R\<^sup>k\<^sup>+\<^sup>1 = C + (\<Sum>j. \<lceil>R\<^sup>k / T\<^sub>j\<rceil> * C\<^sub>j)\<close>, as the loop body computes it.
\<close>

definition R_next :: "Task \<Rightarrow> Task list \<Rightarrow> real \<Rightarrow> real" where
  "R_next task hp R_prev = C task + interference_loop hp R_prev 0"

primrec R_iter :: "Task \<Rightarrow> Task list \<Rightarrow> nat \<Rightarrow> real" where
  "R_iter task hp 0 = C task"
| "R_iter task hp (Suc k) = R_next task hp (R_iter task hp k)"

subsection \<open>TaskSet (models.py)\<close>

text \<open>
  \<^verbatim>\<open>str(n)\<close> for an int, and the letter tau of the synthesized names (a \<open>string\<close> is a
  list of bytes: the letter is its two UTF-8 bytes).
\<close>

fun str_nat :: "nat \<Rightarrow> string" where
  "str_nat n =
     (if n < 10 then [char_of (48 + n)]
      else str_nat (n div 10) @ [char_of (48 + n mod 10)])"

declare str_nat.simps [simp del]

definition str_int :: "int \<Rightarrow> string" where
  "str_int i = (if i < 0 then CHR ''-'' # str_nat (nat (- i)) else str_nat (nat i))"

definition tau :: string where
  "tau = [char_of (207 :: nat), char_of (132 :: nat)]"

text \<open>
  The mutable dataclass \<^verbatim>\<open>TaskSet\<close>: the list \<^verbatim>\<open>tasks\<close> and the flag \<^verbatim>\<open>_sorted\<close>
  (\<open>sorted_flag\<close>). Methods that assign to \<^verbatim>\<open>self\<close> return the updated object.
\<close>

record TaskSet =
  tasks :: "Task list"
  sorted_flag :: bool

text \<open>
  The loop \<^verbatim>\<open>for i, task in enumerate(sorted_tasks)\<close> of
  \<^verbatim>\<open>_assign_rate_monotonic_priorities\<close>; each new Task goes through the validating
  constructor.
\<close>

fun rm_loop :: "(nat \<times> Task) list \<Rightarrow> Task list \<Rightarrow> error + Task list" where
  "rm_loop [] new_tasks = Inr new_tasks"
| "rm_loop ((i, task) # rest) new_tasks =
     (case Task_init (C task) (T task) (Some (D task))
             (if name task \<noteq> [] then name task else tau @ str_int (int i + 1))
             (Some (int i)) of
        Inl e \<Rightarrow> Inl e
      | Inr new_task \<Rightarrow> rm_loop rest (new_tasks @ [new_task]))"

text \<open>
  \<^verbatim>\<open>sorted(self.tasks, key=lambda t: t.T)\<close> is a stable sort; \<open>sort_key\<close> is the stable
  insertion sort of the list library (a stable sort by a key has one result).
\<close>

definition assign_rate_monotonic_priorities :: "TaskSet \<Rightarrow> error + TaskSet" where
  "assign_rate_monotonic_priorities self =
     (let sorted_tasks = sort_key T (tasks self) in
      case rm_loop (enumerate 0 sorted_tasks) [] of
        Inl e \<Rightarrow> Inl e
      | Inr new_tasks \<Rightarrow> Inr (self\<lparr>tasks := new_tasks, sorted_flag := True\<rparr>))"

text \<open>The constructor: the generated \<^verbatim>\<open>__init__\<close> followed by \<^verbatim>\<open>__post_init__\<close>.\<close>

definition TaskSet_init :: "Task list \<Rightarrow> error + TaskSet" where
  "TaskSet_init ts =
     (let self = \<lparr>tasks = ts, sorted_flag = False\<rparr> in
      if ts = [] then Inr self
      else if list_all (\<lambda>t. priority t \<noteq> None) ts then Inr (self\<lparr>sorted_flag := False\<rparr>)
      else if list_all (\<lambda>t. priority t = None) ts then assign_rate_monotonic_priorities self
      else Inl (ValueError [Str ''Either all tasks must have priorities set, or none should.'']))"

text \<open>
  The sort key of \<^verbatim>\<open>get_sorted_tasks\<close>, \<^verbatim>\<open>t.priority if t.priority is not None else float('inf')\<close>:
  an int, or a value above every int. The pairs are ordered lexicographically.
\<close>

definition priority_key :: "Task \<Rightarrow> nat \<times> int" where
  "priority_key t = (case priority t of Some p \<Rightarrow> (0, p) | None \<Rightarrow> (1, 0))"

definition get_sorted_tasks :: "TaskSet \<Rightarrow> Task list \<times> TaskSet" where
  "get_sorted_tasks self =
     (let self' = (if \<not> sorted_flag self
                   then self\<lparr>tasks := sort_key priority_key (tasks self), sorted_flag := True\<rparr>
                   else self)
      in (tasks self', self'))"


definition total_utilization :: "TaskSet \<Rightarrow> real" where
  "total_utilization self = (\<Sum>t\<leftarrow>tasks self. utilization t)"

subsection \<open>analyze\_taskset (analysis.py)\<close>




subsection \<open>Generators (generators.py)\<close>

text \<open>
  \<^verbatim>\<open>random.Random(seed)\<close> is the standard library's generator: it is taken as the
  sequence \<open>rng\<close> of the values its successive \<^verbatim>\<open>random()\<close> calls return, each in
  \<open>[0, 1)\<close>; the index of the next draw is the generator's state.
  The loop \<^verbatim>\<open>for i in range(1, n)\<close> of \<^verbatim>\<open>uunifast\<close>; float \<^verbatim>\<open>**\<close> is \<open>powr\<close>.
\<close>

fun uunifast_loop ::
  "nat list \<Rightarrow> nat \<Rightarrow> (nat \<Rightarrow> real) \<Rightarrow> nat \<Rightarrow> real list \<Rightarrow> real \<Rightarrow> real list \<times> real" where
  "uunifast_loop [] n rng k utilizations sum_u = (utilizations, sum_u)"
| "uunifast_loop (i # rest) n rng k utilizations sum_u =
     (let next_sum_u = sum_u * (rng k powr (1 / real (n - i))) in
      uunifast_loop rest n rng (Suc k) (utilizations @ [sum_u - next_sum_u]) next_sum_u)"

definition uunifast :: "int \<Rightarrow> real \<Rightarrow> (nat \<Rightarrow> real) \<Rightarrow> error + real list" where
  "uunifast n u_total rng =
     (if n \<le> 0 then Inl (ValueError [Str ''Number of tasks must be positive''])
      else if u_total < 0 then Inl (ValueError [Str ''Target utilization must be non-negative''])
      else (let (utilizations, sum_u) = uunifast_loop [1..<nat n] (nat n) rng 0 [] u_total in
            Inr (utilizations @ [sum_u])))"

text \<open>\<^verbatim>\<open>rng.uniform(a, b)\<close> of the standard library is \<^verbatim>\<open>a + (b - a) * self.random()\<close>.\<close>

definition uniform :: "real \<Rightarrow> real \<Rightarrow> real \<Rightarrow> real" where
  "uniform a b draw = a + (b - a) * draw"

text \<open>The loop \<^verbatim>\<open>for i, u in enumerate(utilizations)\<close> of \<^verbatim>\<open>generate_taskset\<close>.\<close>

fun generate_loop ::
  "(nat \<times> real) list \<Rightarrow> real \<Rightarrow> real \<Rightarrow> real \<Rightarrow> real \<Rightarrow> (nat \<Rightarrow> real) \<Rightarrow> nat \<Rightarrow> Task list \<Rightarrow>
   error + Task list" where
  "generate_loop [] period_min period_max deadline_factor_min deadline_factor_max rng k ts = Inr ts"
| "generate_loop ((i, u) # rest) period_min period_max deadline_factor_min deadline_factor_max rng k ts =
     (let log_min = ln period_min;
          log_max = ln period_max;
          t = exp (uniform log_min log_max (rng k));
          c = u * t;
          (deadline_factor, k') =
             (if deadline_factor_min = deadline_factor_max then (deadline_factor_min, Suc k)
              else (uniform deadline_factor_min deadline_factor_max (rng (Suc k)), Suc (Suc k)));
          d = t * deadline_factor;
          d = (if c > d then c else d)
      in case Task_init c t (Some d) (tau @ str_int (int i + 1)) None of
           Inl e \<Rightarrow> Inl e
         | Inr task \<Rightarrow>
             generate_loop rest period_min period_max deadline_factor_min deadline_factor_max
               rng k' (ts @ [task]))"

text \<open>
  \<open>rng_u\<close> is the generator that \<^verbatim>\<open>uunifast\<close> creates from the seed and \<open>rng\<close> the one
  \<^verbatim>\<open>generate_taskset\<close> creates itself; for a seed that is not \<^verbatim>\<open>None\<close> they are the
  same sequence.
\<close>

definition generate_taskset ::
  "int \<Rightarrow> real \<Rightarrow> real \<Rightarrow> real \<Rightarrow> real \<Rightarrow> real \<Rightarrow> (nat \<Rightarrow> real) \<Rightarrow> (nat \<Rightarrow> real) \<Rightarrow> error + TaskSet" where
  "generate_taskset n target_utilization period_min period_max deadline_factor_min
       deadline_factor_max rng_u rng =
     (if period_min \<le> 0 \<or> period_max \<le> 0 \<or> period_min > period_max then
        Inl (ValueError [Str ''Invalid period range''])
      else if deadline_factor_min \<le> 0 \<or> deadline_factor_max < deadline_factor_min then
        Inl (ValueError [Str ''Invalid deadline factor range''])
      else if deadline_factor_max > 1 then
        Inl (ValueError [Str ''Deadline factor cannot exceed 1.0 (D must be <= T)''])
      else
        (case uunifast n target_utilization rng_u of
           Inl e \<Rightarrow> Inl e
         | Inr utilizations \<Rightarrow>
             (case generate_loop (enumerate 0 utilizations) period_min period_max
                     deadline_factor_min deadline_factor_max rng 0 [] of
                Inl e \<Rightarrow> Inl e
              | Inr ts \<Rightarrow> TaskSet_init ts)))"

subsection \<open>Auxiliary notions for the statements\<close>

text \<open>
  The Task that one iteration of the Rate-Monotonic loop builds from \<open>task\<close> at index
  \<open>i\<close> when the constructor accepts it.
\<close>

definition rm_task :: "nat \<Rightarrow> Task \<Rightarrow> Task" where
  "rm_task i task = \<lparr>C = C task, T = T task, D = D task,
      name = (if name task \<noteq> [] then name task else tau @ str_int (int i + 1)),
      priority = Some (int i)\<rparr>"


text \<open>The class of the exception a call raised (\<^verbatim>\<open>type(e).__name__\<close>), if it raised one.\<close>

definition raised_class :: "error + 'a \<Rightarrow> string option" where
  "raised_class r = (case r of Inl e \<Rightarrow> Some (exc_class e) | Inr v \<Rightarrow> None)"

subsection \<open>Example tasks\<close>

text \<open>
  The tasks of \<^verbatim>\<open>test_two_tasks_schedulable\<close> (tests/test_rta.py), as the constructor
  builds them.
\<close>

definition task1 :: Task where
  "task1 = \<lparr>C = 1, T = 4, D = 4, name = [], priority = Some 0\<rparr>"

definition task2 :: Task where
  "task2 = \<lparr>C = 2, T = 6, D = 6, name = [], priority = Some 1\<rparr>"

text \<open>
  A task whose second iterate misses the deadline by less than the convergence
  tolerance: \<open>R\<^sup>0 = 1\<close>, \<open>R\<^sup>1 = 2 + 3e-10\<close>, \<open>R\<^sup>2 = 2 + 6e-10\<close> and \<open>D = 2 + 5e-10\<close>.
\<close>

definition near_task :: Task where
  "near_task = \<lparr>C = 1, T = 10, D = 2 + 5 / 10 ^ 10, name = ''x'', priority = Some 2\<rparr>"

definition near_hp :: "Task list" where
  "near_hp = [\<lparr>C = 1, T = 10, D = 10, name = ''a'', priority = Some 0\<rparr>,
              \<lparr>C = 3 / 10 ^ 10, T = 3 / 2, D = 3 / 2, name = ''e'', priority = Some 1\<rparr>]"

definition task3 :: Task where
  "task3 = \<lparr>C = 1, T = 12, D = 12, name = [], priority = Some 2\<rparr>"

text \<open>
  A target task and three higher-priority tasks for which one more higher-priority
  task changes the outcome from a deadline miss to a value. Without \<open>slow_extra\<close> the
  iterates are \<open>2\<close>, \<open>4 + 5e-10\<close>, \<open>5 + 5e-10\<close>, \<open>6 + 1e-9\<close>, \<open>7 + 1e-9 > D\<close>; with it they
  are \<open>2\<close>, \<open>4 + 6e-10\<close>, \<open>6 + 6e-10\<close>, \<open>6 + 1.1e-9\<close>, and the last step is below the
  tolerance \<open>1e-9\<close>.
\<close>

definition slow_task :: Task where
  "slow_task = \<lparr>C = 2, T = 100, D = 13 / 2, name = ''x'', priority = Some 4\<rparr>"

definition slow_hp :: "Task list" where
  "slow_hp = [\<lparr>C = 1, T = 4 + 55 / 10 ^ 11, D = 4, name = ''a'', priority = Some 0\<rparr>,
              \<lparr>C = 1, T = 3 + 4 / 10 ^ 10, D = 3, name = ''b'', priority = Some 1\<rparr>,
              \<lparr>C = 5 / 10 ^ 10, T = 9 / 2, D = 9 / 2, name = ''c'', priority = Some 2\<rparr>]"

definition slow_extra :: Task where
  "slow_extra = \<lparr>C = 1 / 10 ^ 10, T = 100, D = 100, name = ''h'', priority = Some 3\<rparr>"

text \<open>
  The same effect through the iteration cap: with \<open>max_iterations = 3\<close> the original
  list needs a fourth iteration (\<open>39.5\<close>, \<open>41.5\<close>, \<open>42.5\<close>, \<open>43.5\<close>, \<open>43.5\<close>), the
  extended list converges in three (\<open>39.5\<close>, \<open>44.5\<close>, \<open>46.5\<close>, \<open>46.5\<close>).
\<close>

definition cap_task :: Task where
  "cap_task = \<lparr>C = 79 / 2, T = 100, D = 100, name = ''x'', priority = Some 3\<rparr>"

definition cap_hp :: "Task list" where
  "cap_hp = [\<lparr>C = 1, T = 40, D = 40, name = ''a'', priority = Some 0\<rparr>,
             \<lparr>C = 1, T = 209 / 5, D = 209 / 5, name = ''b'', priority = Some 1\<rparr>]"

definition cap_extra :: Task where
  "cap_extra = \<lparr>C = 3, T = 1000, D = 1000, name = ''h'', priority = Some 2\<rparr>"

text \<open>
  Tasks without a priority: those of \<^verbatim>\<open>test_rate_monotonic_assignment\<close>, and
  \<^verbatim>\<open>Task(C=2, T=10)\<close> with the default empty name.
\<close>

definition rm_a :: Task where
  "rm_a = \<lparr>C = 1, T = 10, D = 10, name = ''t1'', priority = None\<rparr>"

definition rm_b :: Task where
  "rm_b = \<lparr>C = 2, T = 20, D = 20, name = ''t2'', priority = None\<rparr>"

definition rm_c :: Task where
  "rm_c = \<lparr>C = 3, T = 5, D = 5, name = ''t3'', priority = None\<rparr>"

definition unnamed :: Task where
  "unnamed = \<lparr>C = 2, T = 10, D = 10, name = [], priority = None\<rparr>"

text \<open>Two tasks constructed with the same priority, and a list that mixes both kinds.\<close>

definition dup1 :: Task where
  "dup1 = \<lparr>C = 1, T = 10, D = 10, name = ''a'', priority = Some 0\<rparr>"

definition dup2 :: Task where
  "dup2 = \<lparr>C = 2, T = 20, D = 20, name = ''b'', priority = Some 0\<rparr>"

definition mixed :: "Task list" where
  "mixed = [dup1, unnamed]"








section \<open>Properties\<close>

subsection \<open>The interference term\<close>

lemma interference_loop_sum:
  "interference_loop hp R acc = acc + (\<Sum>h\<leftarrow>hp. of_int \<lceil>R / T h\<rceil> * C h)"
  by (induction hp arbitrary: acc) (simp_all add: algebra_simps)

lemma interference_loop_nonneg:
  assumes "\<forall>h\<in>set hp. 0 < C h \<and> 0 < T h" and "0 \<le> R" and "0 \<le> acc"
  shows "0 \<le> interference_loop hp R acc"
  using assms
proof (induction hp arbitrary: acc)
  case Nil
  then show ?case by simp
next
  case (Cons h hp)
  from Cons.prems have h: "0 < T h" "0 < C h"
    by simp_all
  with \<open>0 \<le> R\<close> have "0 \<le> R / T h" by simp
  then have "0 \<le> \<lceil>R / T h\<rceil>" by (simp add: ceiling_le_iff le_ceiling_iff)
  then have "0 \<le> of_int \<lceil>R / T h\<rceil> * C h"
    using h by simp
  with Cons show ?case by simp
qed

lemma rta_loop_bounds:
  assumes "\<forall>h\<in>set hp. 0 < C h \<and> 0 < T h" and "0 \<le> R_prev"
    and "rta_loop n task hp R_prev = Some R" and "0 \<le> C task"
  shows "C task \<le> R \<and> R \<le> D task"
  using assms(1,2,3)
proof (induction n arbitrary: R_prev)
  case 0
  then show ?case by simp
next
  case (Suc n)
  define R_new where "R_new = C task + interference_loop hp R_prev 0"
  have nn: "0 \<le> interference_loop hp R_prev 0"
    using Suc.prems(1,2) by (rule interference_loop_nonneg) simp
  then have ge: "C task \<le> R_new" by (simp add: R_new_def)
  show ?case
  proof (cases "R_new > D task")
    case True
    with Suc.prems(3) show ?thesis by (simp add: R_new_def Let_def)
  next
    case False
    note le = this
    show ?thesis
    proof (cases "\<bar>R_new - R_prev\<bar> < 1 / 10 ^ 9")
      case True
      with le Suc.prems(3) have "R = R_new" by (simp add: R_new_def Let_def)
      with ge le show ?thesis by simp
    next
      case False
      with le Suc.prems(3) have rec: "rta_loop n task hp R_new = Some R"
        by (simp add: R_new_def Let_def)
      from ge \<open>0 \<le> C task\<close> have "0 \<le> R_new" by simp
      from Suc.IH[OF Suc.prems(1) this rec] show ?thesis .
    qed
  qed
qed

subsection \<open>Bounds on the response time\<close>

text \<open>
  C1. For a target task with \<open>C > 0\<close> and higher-priority tasks with \<open>C > 0\<close> and
  \<open>T > 0\<close>, a value \<open>R\<close> returned by \<open>compute_response_time\<close> (for any iteration cap)
  satisfies \<open>C \<le> R \<le> D\<close>.
\<close>

theorem compute_response_time_bounds:
  assumes "0 < C task"
    and "\<forall>h\<in>set higher_priority_tasks. 0 < C h \<and> 0 < T h"
    and "compute_response_time task higher_priority_tasks max_iterations = Some R"
  shows "C task \<le> R \<and> R \<le> D task"
proof -
  from assms(3) have "rta_loop (nat max_iterations) task higher_priority_tasks (C task) = Some R"
    by (simp add: compute_response_time_def)
  with assms(2) show ?thesis
    using assms(1) by (intro rta_loop_bounds[where R_prev = "C task"]) simp_all
qed

theorem compute_response_time_bounds_witness:
  "0 < C task2 \<and> 0 < C task1 \<and> 0 < T task1 \<and>
   compute_response_time task2 [task1] 1000 = Some 3 \<and> C task2 \<le> 3 \<and> 3 \<le> D task2"
proof -
  have pos: "0 < C task2" and hp: "\<forall>h\<in>set [task1]. 0 < C h \<and> 0 < T h"
    by (simp_all add: task1_def task2_def)
  have run: "compute_response_time task2 [task1] 1000 = Some 3"
    by code_simp
  from compute_response_time_bounds[OF pos hp run] pos hp run show ?thesis
    by simp
qed

subsection \<open>The iteration cap\<close>

text \<open>
  C10. With \<open>max_iterations = 0\<close> the loop body never runs and
  \<open>compute_response_time\<close> returns \<open>None\<close>, whatever the task and the list of
  higher-priority tasks (the empty list included).
\<close>

theorem compute_response_time_zero_iterations:
  "compute_response_time task higher_priority_tasks 0 = None"
  by (simp add: compute_response_time_def)

text \<open>For comparison: one iteration is enough for a task that is alone.\<close>

lemma compute_response_time_alone:
  "C task \<le> D task \<Longrightarrow> compute_response_time task [] 1 = Some (C task)"
  by (simp add: compute_response_time_def)

subsection \<open>Deadline miss before convergence\<close>

lemma rta_loop_miss:
  assumes "\<forall>j<k. R_iter task hp (Suc (i + j)) \<le> D task \<and>
                 \<not> \<bar>R_iter task hp (Suc (i + j)) - R_iter task hp (i + j)\<bar> < 1 / 10 ^ 9"
    and "D task < R_iter task hp (Suc (i + k))"
  shows "rta_loop (Suc k + n) task hp (R_iter task hp i) = None"
  using assms
proof (induction k arbitrary: i)
  case 0
  then show ?case by (simp add: R_next_def)
next
  case (Suc k)
  from Suc.prems(1) have first: "R_iter task hp (Suc i) \<le> D task"
    "\<not> \<bar>R_iter task hp (Suc i) - R_iter task hp i\<bar> < 1 / 10 ^ 9"
    by (auto dest: spec[where x = 0])
  have "\<forall>j<k. R_iter task hp (Suc (Suc i + j)) \<le> D task \<and>
              \<not> \<bar>R_iter task hp (Suc (Suc i + j)) - R_iter task hp (Suc i + j)\<bar> < 1 / 10 ^ 9"
  proof (intro allI impI)
    fix j assume "j < k"
    then have "Suc j < Suc k" by simp
    with Suc.prems(1) show "R_iter task hp (Suc (Suc i + j)) \<le> D task \<and>
        \<not> \<bar>R_iter task hp (Suc (Suc i + j)) - R_iter task hp (Suc i + j)\<bar> < 1 / 10 ^ 9"
      by (auto dest!: spec[where x = "Suc j"])
  qed
  moreover from Suc.prems(2) have "D task < R_iter task hp (Suc (Suc i + k))" by simp
  ultimately have "rta_loop (Suc k + n) task hp (R_iter task hp (Suc i)) = None"
    by (rule Suc.IH)
  with first show ?case
    by (simp add: R_next_def)
qed

text \<open>
  C2. The deadline check comes before the convergence check: if the loop reaches
  iteration \<open>k + 1\<close> (no earlier iterate missed the deadline or converged, and
  \<open>k < max_iterations\<close>) and the iterate \<open>R\<^sup>k\<^sup>+\<^sup>1\<close> exceeds \<open>D\<close>, the function returns \<open>None\<close>.
  Nothing is assumed about \<open>\<bar>R\<^sup>k\<^sup>+\<^sup>1 - R\<^sup>k\<bar>\<close>: the result is \<open>None\<close> also when the
  convergence test would have held.
\<close>

theorem deadline_miss_before_convergence:
  assumes "int k < max_iterations"
    and "\<forall>j<k. R_iter task higher_priority_tasks (Suc j) \<le> D task \<and>
               \<not> \<bar>R_iter task higher_priority_tasks (Suc j) - R_iter task higher_priority_tasks j\<bar>
                   < 1 / 10 ^ 9"
    and "D task < R_iter task higher_priority_tasks (Suc k)"
  shows "compute_response_time task higher_priority_tasks max_iterations = None"
proof -
  from assms(1) have "nat max_iterations = Suc k + (nat max_iterations - Suc k)"
    by simp
  moreover have "rta_loop (Suc k + (nat max_iterations - Suc k)) task higher_priority_tasks
                   (R_iter task higher_priority_tasks 0) = None"
    using assms(2,3) by (intro rta_loop_miss) simp_all
  ultimately show ?thesis
    by (simp add: compute_response_time_def)
qed

theorem deadline_miss_before_convergence_witness:
  "int 1 < 1000 \<and>
   R_iter near_task near_hp 1 \<le> D near_task \<and>
   \<not> \<bar>R_iter near_task near_hp 1 - R_iter near_task near_hp 0\<bar> < 1 / 10 ^ 9 \<and>
   D near_task < R_iter near_task near_hp 2 \<and>
   \<bar>R_iter near_task near_hp 2 - R_iter near_task near_hp 1\<bar> < 1 / 10 ^ 9 \<and>
   compute_response_time near_task near_hp 1000 = None"
proof -
  have r0: "R_iter near_task near_hp 0 = 1"
    by code_simp
  have r1: "R_iter near_task near_hp (Suc 0) = 2 + 3 / 10 ^ 10"
    by code_simp
  have r2: "R_iter near_task near_hp (Suc (Suc 0)) = 2 + 6 / 10 ^ 10"
    by code_simp
  have d: "D near_task = 2 + 5 / 10 ^ 10"
    by (simp add: near_task_def)
  have cap: "int (Suc 0) < 1000" by simp
  have reach: "\<forall>j<Suc 0. R_iter near_task near_hp (Suc j) \<le> D near_task \<and>
      \<not> \<bar>R_iter near_task near_hp (Suc j) - R_iter near_task near_hp j\<bar> < 1 / 10 ^ 9"
    using r0 r1 d by simp
  have miss: "D near_task < R_iter near_task near_hp (Suc (Suc 0))"
    using r2 d by simp
  have close: "\<bar>R_iter near_task near_hp (Suc (Suc 0)) - R_iter near_task near_hp (Suc 0)\<bar> < 1 / 10 ^ 9"
    using r1 r2 by simp
  from deadline_miss_before_convergence[OF cap reach miss] reach miss close show ?thesis
    by (simp add: numeral_2_eq_2)
qed

subsection \<open>Monotonic interference\<close>

lemma interference_loop_mono:
  assumes "\<forall>h\<in>set hp. 0 < C h \<and> 0 < T h" and "R \<le> R'"
  shows "interference_loop hp R 0 \<le> interference_loop hp R' 0"
proof -
  have "(\<Sum>h\<leftarrow>hp. of_int \<lceil>R / T h\<rceil> * C h) \<le> (\<Sum>h\<leftarrow>hp. of_int \<lceil>R' / T h\<rceil> * C h)"
  proof (rule sum_list_mono)
    fix h assume "h \<in> set hp"
    with assms(1) have h: "0 < C h" "0 < T h" by simp_all
    from h(2) assms(2) have "R / T h \<le> R' / T h"
      by (simp add: divide_right_mono)
    then have "\<lceil>R / T h\<rceil> \<le> \<lceil>R' / T h\<rceil>"
      by (rule ceiling_mono)
    then have "(of_int \<lceil>R / T h\<rceil> :: real) \<le> of_int \<lceil>R' / T h\<rceil>"
      by simp
    with h(1) show "of_int \<lceil>R / T h\<rceil> * C h \<le> of_int \<lceil>R' / T h\<rceil> * C h"
      by (simp add: mult_right_mono)
  qed
  then show ?thesis
    by (simp add: interference_loop_sum)
qed

lemma interference_loop_append:
  "interference_loop (hp @ [h]) R 0 = interference_loop hp R 0 + of_int \<lceil>R / T h\<rceil> * C h"
  by (simp add: interference_loop_sum)

lemma R_next_mono_append:
  assumes "\<forall>h\<in>set hp. 0 < C h \<and> 0 < T h" and "0 < C h \<and> 0 < T h"
    and "0 \<le> R" and "R \<le> R'"
  shows "R_next task hp R \<le> R_next task (hp @ [h]) R'"
proof -
  have "interference_loop hp R 0 \<le> interference_loop hp R' 0"
    using assms(1,4) by (rule interference_loop_mono)
  moreover have "0 \<le> of_int \<lceil>R' / T h\<rceil> * C h"
  proof -
    from assms have "0 \<le> R' / T h" by simp
    then have "0 \<le> \<lceil>R' / T h\<rceil>" by (simp add: le_ceiling_iff)
    with assms(2) show ?thesis by simp
  qed
  ultimately show ?thesis
    by (simp add: R_next_def interference_loop_append)
qed

lemma R_iter_lower:
  assumes "\<forall>h\<in>set hp. 0 < C h \<and> 0 < T h" and "0 \<le> C task"
  shows "C task \<le> R_iter task hp k"
proof (induction k)
  case 0
  show ?case by simp
next
  case (Suc k)
  with assms(2) have "0 \<le> R_iter task hp k" by simp
  with assms(1) have "0 \<le> interference_loop hp (R_iter task hp k) 0"
    by (intro interference_loop_nonneg) simp_all
  then show ?case by (simp add: R_next_def)
qed

lemma R_iter_mono_append:
  assumes "\<forall>h\<in>set hp. 0 < C h \<and> 0 < T h" and "0 < C h \<and> 0 < T h" and "0 \<le> C task"
  shows "R_iter task hp k \<le> R_iter task (hp @ [h]) k"
proof (induction k)
  case 0
  show ?case by simp
next
  case (Suc k)
  have "0 \<le> R_iter task hp k"
    using R_iter_lower[OF assms(1,3), of k] assms(3) by simp
  with Suc show ?case
    using assms(1,2) by (simp add: R_next_mono_append)
qed

lemma R_iter_below_fixed_point:
  assumes "\<forall>h\<in>set hp. 0 < C h \<and> 0 < T h" and "0 < C h \<and> 0 < T h" and "0 \<le> C task"
    and "C task \<le> R'" and "R_next task (hp @ [h]) R' = R'"
  shows "R_iter task hp k \<le> R'"
proof (induction k)
  case 0
  from assms(4) show ?case by simp
next
  case (Suc k)
  have "0 \<le> R_iter task hp k"
    using R_iter_lower[OF assms(1,3), of k] assms(3) by simp
  then have "R_next task hp (R_iter task hp k) \<le> R_next task (hp @ [h]) R'"
    using assms(1,2) Suc by (intro R_next_mono_append) simp_all
  with assms(5) show ?case by simp
qed

lemma rta_loop_returns_iterate:
  assumes "rta_loop n task hp (R_iter task hp i) = Some R"
  shows "\<exists>j. R = R_iter task hp j"
  using assms
proof (induction n arbitrary: i)
  case 0
  then show ?case by simp
next
  case (Suc n)
  show ?case
  proof (cases "rta_loop n task hp (R_iter task hp (Suc i)) = Some R")
    case True
    then show ?thesis by (rule Suc.IH)
  next
    case False
    with Suc.prems have "R = R_iter task hp (Suc i)"
      by (simp add: R_next_def Let_def split: if_splits)
    then show ?thesis by blast
  qed
qed

text \<open>
  C5 as stated fails. With the default cap \<open>max_iterations = 1000\<close>: the original list
  gives \<open>None\<close> (a deadline miss) and the list with one more valid task gives a value.
\<close>

theorem monotonic_interference_counterexample:
  "valid_Task slow_task \<and> list_all valid_Task slow_hp \<and> valid_Task slow_extra \<and>
   compute_response_time slow_task slow_hp 1000 = None \<and>
   compute_response_time slow_task (slow_hp @ [slow_extra]) 1000 = Some (6 + 11 / 10 ^ 10)"
proof -
  have "valid_Task slow_task" "list_all valid_Task slow_hp" "valid_Task slow_extra"
    by (simp_all add: valid_Task_def slow_task_def slow_hp_def slow_extra_def)
  moreover have "compute_response_time slow_task slow_hp 1000 = None"
    by code_simp
  moreover have
    "compute_response_time slow_task (slow_hp @ [slow_extra]) 1000 = Some (6 + 11 / 10 ^ 10)"
    by code_simp
  ultimately show ?thesis by simp
qed

lemma monotonic_interference_cap:
  "compute_response_time cap_task cap_hp 3 = None \<and>
   compute_response_time cap_task (cap_hp @ [cap_extra]) 3 = Some (93 / 2) \<and>
   compute_response_time cap_task cap_hp 1000 = Some (87 / 2)"
proof -
  have "compute_response_time cap_task cap_hp 3 = None"
    by code_simp
  moreover have "compute_response_time cap_task (cap_hp @ [cap_extra]) 3 = Some (93 / 2)"
    by code_simp
  moreover have "compute_response_time cap_task cap_hp 1000 = Some (87 / 2)"
    by code_simp
  ultimately show ?thesis by simp
qed

text \<open>
  C5, amended. For a target task with \<open>C > 0\<close>, higher-priority tasks with \<open>C > 0\<close> and
  \<open>T > 0\<close> and one more such task appended: every iterate of the recurrence for the
  extended list is at least the iterate for the original list. If moreover the extended
  list yields a response time \<open>R'\<close> that is an exact fixed point of its recurrence, then
  \<open>R' \<le> D\<close>, no iterate of the original list exceeds \<open>R'\<close> (the original call has no
  deadline miss), and a response time the original call returns under the same
  \<open>max_iterations\<close> is at most \<open>R'\<close>.
\<close>

theorem monotonic_interference:
  assumes "0 < C task"
    and "\<forall>h\<in>set higher_priority_tasks. 0 < C h \<and> 0 < T h"
    and "0 < C h \<and> 0 < T h"
  shows "(\<forall>k. R_iter task higher_priority_tasks k \<le> R_iter task (higher_priority_tasks @ [h]) k) \<and>
         (compute_response_time task (higher_priority_tasks @ [h]) max_iterations = Some R' \<and>
          R_next task (higher_priority_tasks @ [h]) R' = R' \<longrightarrow>
            R' \<le> D task \<and> (\<forall>k. R_iter task higher_priority_tasks k \<le> R') \<and>
            (\<forall>R. compute_response_time task higher_priority_tasks max_iterations = Some R
                  \<longrightarrow> R \<le> R'))"
proof (intro conjI allI impI)
  fix k
  show "R_iter task higher_priority_tasks k \<le> R_iter task (higher_priority_tasks @ [h]) k"
    using assms by (intro R_iter_mono_append) simp_all
next
  assume ext: "compute_response_time task (higher_priority_tasks @ [h]) max_iterations = Some R' \<and> R_next task (higher_priority_tasks @ [h]) R' = R'"
  have hp': "\<forall>x\<in>set (higher_priority_tasks @ [h]). 0 < C x \<and> 0 < T x"
    using assms(2,3) by simp
  from ext have "rta_loop (nat max_iterations) task (higher_priority_tasks @ [h]) (C task) = Some R'"
    by (simp add: compute_response_time_def)
  with hp' have b: "C task \<le> R' \<and> R' \<le> D task"
    using assms(1) by (intro rta_loop_bounds[where R_prev = "C task"]) simp_all
  then show "R' \<le> D task" by simp
  have below: "R_iter task higher_priority_tasks k \<le> R'" for k
    using assms b ext by (intro R_iter_below_fixed_point[where h = h]) simp_all
  then show "R_iter task higher_priority_tasks k \<le> R'" for k .
  fix R assume "compute_response_time task higher_priority_tasks max_iterations = Some R"
  then have "rta_loop (nat max_iterations) task higher_priority_tasks (R_iter task higher_priority_tasks 0) = Some R"
    by (simp add: compute_response_time_def)
  then obtain j where "R = R_iter task higher_priority_tasks j"
    using rta_loop_returns_iterate by blast
  with below show "R \<le> R'" by simp
qed


theorem monotonic_interference_witness:
  "0 < C task3 \<and> 0 < C task1 \<and> 0 < T task1 \<and> 0 < C task2 \<and> 0 < T task2 \<and>
   compute_response_time task3 ([task1] @ [task2]) 1000 = Some 4 \<and>
   R_next task3 ([task1] @ [task2]) 4 = 4 \<and>
   compute_response_time task3 [task1] 1000 = Some 2 \<and>
   R_iter task3 [task1] 1 \<le> R_iter task3 ([task1] @ [task2]) 1 \<and>
   R_iter task3 [task1] 1 \<le> 4 \<and> (2 :: real) \<le> 4 \<and> 4 \<le> D task3"
proof -
  have pos: "0 < C task3" and hp: "\<forall>h\<in>set [task1]. 0 < C h \<and> 0 < T h"
    and extra: "0 < C task2 \<and> 0 < T task2"
    by (simp_all add: task1_def task2_def task3_def)
  have ext: "compute_response_time task3 ([task1] @ [task2]) 1000 = Some 4"
    by code_simp
  have fp: "R_next task3 ([task1] @ [task2]) 4 = 4"
    by code_simp
  have orig: "compute_response_time task3 [task1] 1000 = Some 2"
    by code_simp
  note inst = monotonic_interference[OF pos hp extra, of 1000 4]
  from inst have i1: "R_iter task3 [task1] 1 \<le> R_iter task3 ([task1] @ [task2]) 1"
    by blast
  from inst ext fp have d: "4 \<le> D task3" and i2: "R_iter task3 [task1] 1 \<le> 4"
    and r: "\<forall>R. compute_response_time task3 [task1] 1000 = Some R \<longrightarrow> R \<le> 4"
    by blast+
  from r orig have "(2 :: real) \<le> 4" by blast
  with pos hp extra ext fp orig i1 i2 d show ?thesis
    by (intro conjI) simp_all
qed

subsection \<open>UUniFast\<close>

lemma uunifast_loop_length:
  "length (fst (uunifast_loop js n rng k us s)) = length us + length js"
  by (induction js arbitrary: k us s) (simp_all add: Let_def)

lemma uunifast_loop_sum:
  "sum_list (fst (uunifast_loop js n rng k us s)) + snd (uunifast_loop js n rng k us s)
     = sum_list us + s"
  by (induction js arbitrary: k us s) (simp_all add: Let_def)

lemma uunifast_loop_nonneg:
  assumes "\<forall>k. 0 \<le> rng k \<and> rng k < 1" and "0 \<le> s" and "\<forall>u\<in>set us. 0 \<le> u"
  shows "(\<forall>u\<in>set (fst (uunifast_loop js n rng k us s)). 0 \<le> u) \<and>
         0 \<le> snd (uunifast_loop js n rng k us s)"
  using assms(2,3)
proof (induction js arbitrary: k us s)
  case Nil
  then show ?case by simp
next
  case (Cons i js)
  define p where "p = rng k powr (1 / real (n - i))"
  from assms(1) have "0 \<le> rng k" "rng k \<le> 1"
    by (simp_all add: less_imp_le)
  then have p: "0 \<le> p" "p \<le> 1"
    by (simp_all add: p_def powr_le1)
  from p Cons.prems(1) have next_nonneg: "0 \<le> s * p"
    by simp
  from p Cons.prems(1) have "s * p \<le> s * 1"
    by (intro mult_left_mono) simp_all
  then have diff: "0 \<le> s - s * p" by simp
  with Cons.prems(2) have all: "\<forall>u\<in>set (us @ [s - s * p]). 0 \<le> u"
    by simp
  from Cons.IH[OF next_nonneg all, of "Suc k"] show ?case
    by (simp add: Let_def p_def)
qed

text \<open>
  C6. For \<open>n > 0\<close>, \<open>u_total \<ge> 0\<close> and every generator (every sequence of draws in
  \<open>[0, 1)\<close>), \<open>uunifast\<close> returns a list of exactly \<open>n\<close> values, each non-negative,
  whose sum is \<open>u_total\<close> (in real arithmetic).
\<close>

theorem uunifast_sum:
  assumes "0 < n" and "0 \<le> u_total" and "\<forall>k. 0 \<le> rng k \<and> rng k < 1"
  shows "\<exists>us. uunifast n u_total rng = Inr us \<and> int (length us) = n \<and>
              (\<forall>u\<in>set us. 0 \<le> u) \<and> sum_list us = u_total"
proof -
  define r where "r = uunifast_loop [1..<nat n] (nat n) rng 0 [] u_total"
  have res: "uunifast n u_total rng = Inr (fst r @ [snd r])"
    using assms(1,2) by (simp add: uunifast_def r_def split_beta)
  have len: "length (fst r) = nat n - 1"
    by (simp add: r_def uunifast_loop_length)
  have sum: "sum_list (fst r) + snd r = u_total"
    using uunifast_loop_sum[of "[1..<nat n]" "nat n" rng 0 "[]" u_total] by (simp add: r_def)
  have nn: "(\<forall>u\<in>set (fst r). 0 \<le> u) \<and> 0 \<le> snd r"
    unfolding r_def using assms(3,2) by (intro uunifast_loop_nonneg) simp_all
  from len assms(1) have "int (length (fst r @ [snd r])) = n" by simp
  moreover from nn have "\<forall>u\<in>set (fst r @ [snd r]). 0 \<le> u" by simp
  moreover from sum have "sum_list (fst r @ [snd r]) = u_total" by simp
  ultimately show ?thesis using res by blast
qed

theorem uunifast_sum_witness:
  "(0 :: int) < 2 \<and> (0 :: real) \<le> 1 \<and>
   uunifast 2 1 (\<lambda>k. 1 / 2) = Inr [1 / 2, 1 / 2] \<and>
   (\<exists>us. uunifast 2 1 (\<lambda>k. 1 / 2) = Inr us \<and> int (length us) = 2 \<and> sum_list us = 1)"
proof -
  have n: "(0 :: int) < 2" and u: "(0 :: real) \<le> 1"
    and draws: "\<forall>k :: nat. (0 :: real) \<le> 1 / 2 \<and> (1 :: real) / 2 < 1"
    by simp_all
  have "[Suc 0..<2] = [Suc 0]" by (simp add: upt_rec)
  then have run: "uunifast 2 1 (\<lambda>k. 1 / 2) = Inr [1 / 2, 1 / 2]"
    by (simp add: uunifast_def Let_def)
  from uunifast_sum[OF n u draws] have
    "\<exists>us. uunifast 2 1 (\<lambda>k. 1 / 2) = Inr us \<and> int (length us) = 2 \<and> sum_list us = 1"
    by blast
  with n u run show ?thesis by blast
qed

subsection \<open>Construction of tasks and task sets\<close>

lemma Task_init_valid:
  assumes "valid_Task t"
  shows "Task_init (C t) (T t) (Some (D t)) nm p =
           Inr \<lparr>C = C t, T = T t, D = D t, name = nm, priority = p\<rparr>"
  using assms by (simp add: Task_init_def valid_Task_def not_le not_less)

lemma Task_init_Inr_valid:
  assumes "Task_init c t d nm p = Inr x"
  shows "valid_Task x \<and> C x = c \<and> T x = t \<and> name x = nm \<and> priority x = p \<and>
         D x = (case d of None \<Rightarrow> t | Some d' \<Rightarrow> d')"
  using assms by (auto simp: Task_init_def valid_Task_def split: if_splits option.splits)

lemma rm_loop_valid:
  assumes "\<forall>x\<in>set xs. valid_Task (snd x)"
  shows "rm_loop xs new_tasks = Inr (new_tasks @ map (\<lambda>(i, task). rm_task i task) xs)"
  using assms
proof (induction xs arbitrary: new_tasks)
  case Nil
  show ?case by simp
next
  case (Cons x xs)
  obtain i task where x: "x = (i, task)" by (cases x)
  with Cons.prems have "valid_Task task" by simp
  then have "Task_init (C task) (T task) (Some (D task))
               (if name task \<noteq> [] then name task else tau @ str_int (int i + 1)) (Some (int i))
             = Inr (rm_task i task)"
    unfolding rm_task_def by (rule Task_init_valid)
  moreover from Cons.prems have "\<forall>x\<in>set xs. valid_Task (snd x)" by simp
  ultimately show ?case
    using Cons.IH x by simp
qed

lemma TaskSet_init_rm:
  assumes "\<forall>t\<in>set ts. valid_Task t \<and> priority t = None" and "ts \<noteq> []"
  shows "TaskSet_init ts =
           Inr \<lparr>tasks = map (\<lambda>(i, task). rm_task i task) (enumerate 0 (sort_key T ts)),
                sorted_flag = True\<rparr>"
proof -
  from assms obtain t where "t \<in> set ts" "priority t = None"
    by (cases ts) auto
  then have not_all: "\<not> list_all (\<lambda>t. priority t \<noteq> None) ts"
    by (auto simp: list_all_iff)
  from assms(1) have none: "list_all (\<lambda>t. priority t = None) ts"
    by (simp add: list_all_iff)
  have "\<forall>x\<in>set (enumerate 0 (sort_key T ts)). valid_Task (snd x)"
  proof
    fix x assume "x \<in> set (enumerate 0 (sort_key T ts))"
    then have "snd x \<in> set (map snd (enumerate 0 (sort_key T ts)))"
      unfolding set_map by (rule imageI)
    then have "snd x \<in> set ts" by simp
    with assms(1) show "valid_Task (snd x)" by simp
  qed
  then have "rm_loop (enumerate 0 (sort_key T ts)) [] =
      Inr ([] @ map (\<lambda>(i, task). rm_task i task) (enumerate 0 (sort_key T ts)))"
    by (rule rm_loop_valid)
  with not_all none assms(2) show ?thesis
    by (simp add: TaskSet_init_def assign_rate_monotonic_priorities_def Let_def)
qed

lemma rm_nth:
  assumes "i < length ts"
  shows "map (\<lambda>(i, task). rm_task i task) (enumerate 0 (sort_key T ts)) ! i
           = rm_task i (sort_key T ts ! i)"
  using assms by (simp add: nth_enumerate_eq)


text \<open>
  C4. For a list of valid tasks none of which carries a priority, the constructor
  succeeds; the new tasks follow a list \<open>s\<close> that is the input sorted by ascending
  period with equal periods in their original order (for each period \<open>k\<close>, the tasks of
  period \<open>k\<close> appear in \<open>s\<close> exactly as in the input), the task at index \<open>i\<close> gets
  priority \<open>i\<close>, and so a shorter period means a smaller priority number.
\<close>

theorem rate_monotonic_assignment:
  assumes "\<forall>t\<in>set ts. valid_Task t \<and> priority t = None"
  shows "\<exists>self s. TaskSet_init ts = Inr self \<and>
           length s = length ts \<and> sorted (map T s) \<and>
           (\<forall>k. filter (\<lambda>t. T t = k) s = filter (\<lambda>t. T t = k) ts) \<and>
           length (tasks self) = length ts \<and>
           (\<forall>i<length ts. C (tasks self ! i) = C (s ! i) \<and> T (tasks self ! i) = T (s ! i) \<and>
                          D (tasks self ! i) = D (s ! i) \<and>
                          priority (tasks self ! i) = Some (int i)) \<and>
           (\<forall>a\<in>set (tasks self). \<forall>b\<in>set (tasks self). T a < T b \<longrightarrow>
              (\<exists>p q. priority a = Some p \<and> priority b = Some q \<and> p < q))"
proof (cases "ts = []")
  case True
  then have "TaskSet_init ts = Inr \<lparr>tasks = [], sorted_flag = False\<rparr>"
    by (simp add: TaskSet_init_def)
  with True show ?thesis by simp
next
  case False
  define s where "s = sort_key T ts"
  define new where "new = map (\<lambda>(i, task). rm_task i task) (enumerate 0 s)"
  have init: "TaskSet_init ts = Inr \<lparr>tasks = new, sorted_flag = True\<rparr>"
    unfolding new_def s_def using assms False by (rule TaskSet_init_rm)
  have len: "length s = length ts" "length new = length ts"
    by (simp_all add: s_def new_def)
  have srt: "sorted (map T s)"
    by (simp add: s_def sorted_sort_key)
  have stable: "filter (\<lambda>t. T t = k) s = filter (\<lambda>t. T t = k) ts" for k
    unfolding s_def by (rule sort_key_stable)
  have nth: "new ! i = rm_task i (s ! i)" if "i < length ts" for i
    using that unfolding new_def s_def by (rule rm_nth)
  have fields: "C (new ! i) = C (s ! i) \<and> T (new ! i) = T (s ! i) \<and> D (new ! i) = D (s ! i) \<and>
      priority (new ! i) = Some (int i)" if "i < length ts" for i
    using nth[OF that] by (simp add: rm_task_def)
  have order: "\<exists>p q. priority a = Some p \<and> priority b = Some q \<and> p < q"
    if "a \<in> set new" "b \<in> set new" "T a < T b" for a b
  proof -
    from that(1) len obtain i where i: "i < length ts" "a = new ! i"
      by (auto simp: in_set_conv_nth)
    from that(2) len obtain j where j: "j < length ts" "b = new ! j"
      by (auto simp: in_set_conv_nth)
    have "i < j"
    proof (rule ccontr)
      assume "\<not> i < j"
      then have "j \<le> i" by simp
      with srt i(1) len have "map T s ! j \<le> map T s ! i"
        by (intro sorted_nth_mono) simp_all
      with i j len have "T (s ! j) \<le> T (s ! i)" by simp
      with fields[OF i(1)] fields[OF j(1)] i j that(3) show False by simp
    qed
    with fields[OF i(1)] fields[OF j(1)] i j show ?thesis by simp
  qed
  from init len srt stable fields order show ?thesis
    by (intro exI[where x = "\<lparr>tasks = new, sorted_flag = True\<rparr>"] exI[where x = s]) simp
qed


theorem rate_monotonic_assignment_witness:
  "valid_Task rm_a \<and> valid_Task rm_b \<and> valid_Task rm_c \<and>
   priority rm_a = None \<and> priority rm_b = None \<and> priority rm_c = None \<and>
   TaskSet_init [rm_a, rm_b, rm_c] =
     Inr \<lparr>tasks = [rm_c\<lparr>priority := Some 0\<rparr>, rm_a\<lparr>priority := Some 1\<rparr>,
                   rm_b\<lparr>priority := Some 2\<rparr>], sorted_flag = True\<rparr> \<and>
   (\<exists>self. TaskSet_init [rm_a, rm_b, rm_c] = Inr self \<and>
      length (tasks self) = length [rm_a, rm_b, rm_c] \<and>
      priority (tasks self ! 0) = Some 0 \<and> priority (tasks self ! 2) = Some 2)"
proof -
  have v: "valid_Task rm_a" "valid_Task rm_b" "valid_Task rm_c"
    and p: "priority rm_a = None" "priority rm_b = None" "priority rm_c = None"
    by (simp_all add: valid_Task_def rm_a_def rm_b_def rm_c_def)
  then have hyp: "\<forall>t\<in>set [rm_a, rm_b, rm_c]. valid_Task t \<and> priority t = None"
    by simp
  have run: "TaskSet_init [rm_a, rm_b, rm_c] =
     Inr \<lparr>tasks = [rm_c\<lparr>priority := Some 0\<rparr>, rm_a\<lparr>priority := Some 1\<rparr>,
                   rm_b\<lparr>priority := Some 2\<rparr>], sorted_flag = True\<rparr>"
    by code_simp
  from rate_monotonic_assignment[OF hyp] obtain self where
    self: "TaskSet_init [rm_a, rm_b, rm_c] = Inr self"
      "length (tasks self) = length [rm_a, rm_b, rm_c]"
      "\<forall>i<length [rm_a, rm_b, rm_c]. priority (tasks self ! i) = Some (int i)"
    by blast
  from self(3)[rule_format, of 0] self(3)[rule_format, of 2]
  have "priority (tasks self ! 0) = Some 0" "priority (tasks self ! 2) = Some 2"
    by simp_all
  with self(1,2) have "\<exists>self. TaskSet_init [rm_a, rm_b, rm_c] = Inr self \<and>
      length (tasks self) = length [rm_a, rm_b, rm_c] \<and>
      priority (tasks self ! 0) = Some 0 \<and> priority (tasks self ! 2) = Some 2"
    by blast
  with v p run show ?thesis by blast
qed

text \<open>
  C8 as stated fails: two tasks constructed with the same priority \<open>0\<close> form a task set
  that the constructor accepts unchanged.
\<close>

theorem distinct_priorities_counterexample:
  "Task_init 1 10 None ''a'' (Some 0) = Inr dup1 \<and>
   Task_init 2 20 None ''b'' (Some 0) = Inr dup2 \<and>
   TaskSet_init [dup1, dup2] = Inr \<lparr>tasks = [dup1, dup2], sorted_flag = False\<rparr> \<and>
   \<not> distinct (map priority [dup1, dup2])"
  by (simp add: Task_init_def TaskSet_init_def dup1_def dup2_def)

lemma negative_priority_accepted:
  "Task_init 1 10 None ''a'' (Some (- 1)) =
     Inr \<lparr>C = 1, T = 10, D = 10, name = ''a'', priority = Some (- 1)\<rparr>"
  by (simp add: Task_init_def)

text \<open>
  C8, amended. A task set constructed from valid tasks that carry no priority has the
  priorities \<open>0, ..., n - 1\<close> in list order, pairwise distinct and non-negative. A
  non-empty list of tasks that all carry a priority is accepted as it is, tasks and
  priorities unchanged: pre-assigned priorities are not checked.
\<close>

theorem priorities_of_constructed_set:
  "((\<forall>t\<in>set ts. valid_Task t \<and> priority t = None) \<longrightarrow>
      (\<exists>self. TaskSet_init ts = Inr self \<and>
         map priority (tasks self) = map (\<lambda>i. Some (int i)) [0..<length ts] \<and>
         distinct (map priority (tasks self)))) \<and>
   (ts \<noteq> [] \<and> (\<forall>t\<in>set ts. priority t \<noteq> None) \<longrightarrow>
      TaskSet_init ts = Inr \<lparr>tasks = ts, sorted_flag = False\<rparr>)"
proof (intro conjI impI)
  assume none: "\<forall>t\<in>set ts. valid_Task t \<and> priority t = None"
  show "\<exists>self. TaskSet_init ts = Inr self \<and>
         map priority (tasks self) = map (\<lambda>i. Some (int i)) [0..<length ts] \<and>
         distinct (map priority (tasks self))"
  proof (cases "ts = []")
    case True
    then show ?thesis by (simp add: TaskSet_init_def)
  next
    case False
    define new where "new = map (\<lambda>(i, task). rm_task i task) (enumerate 0 (sort_key T ts))"
    have init: "TaskSet_init ts = Inr \<lparr>tasks = new, sorted_flag = True\<rparr>"
      unfolding new_def using none False by (rule TaskSet_init_rm)
    have "map priority new = map (\<lambda>i. Some (int i)) [0..<length ts]"
    proof (rule nth_equalityI)
      show "length (map priority new) = length (map (\<lambda>i. Some (int i)) [0..<length ts])"
        by (simp add: new_def)
    next
      fix i assume "i < length (map priority new)"
      then have i: "i < length ts" by (simp add: new_def)
      then have "new ! i = rm_task i (sort_key T ts ! i)"
        unfolding new_def by (rule rm_nth)
      with i show "map priority new ! i = map (\<lambda>i. Some (int i)) [0..<length ts] ! i"
        by (simp add: new_def rm_task_def)
    qed
    moreover have "distinct (map (\<lambda>i. Some (int i)) [0..<length ts])"
      by (simp add: distinct_map inj_on_def)
    ultimately show ?thesis using init by simp
  qed
next
  assume "ts \<noteq> [] \<and> (\<forall>t\<in>set ts. priority t \<noteq> None)"
  then show "TaskSet_init ts = Inr \<lparr>tasks = ts, sorted_flag = False\<rparr>"
    by (simp add: TaskSet_init_def list_all_iff)
qed

theorem priorities_of_constructed_set_witness:
  "valid_Task rm_a \<and> valid_Task rm_b \<and> valid_Task rm_c \<and>
   priority rm_a = None \<and> priority rm_b = None \<and> priority rm_c = None \<and>
   (\<exists>self. TaskSet_init [rm_a, rm_b, rm_c] = Inr self \<and>
      map priority (tasks self) = [Some 0, Some 1, Some 2] \<and>
      distinct (map priority (tasks self))) \<and>
   [dup1, dup2] \<noteq> [] \<and> priority dup1 \<noteq> None \<and> priority dup2 \<noteq> None \<and>
   TaskSet_init [dup1, dup2] = Inr \<lparr>tasks = [dup1, dup2], sorted_flag = False\<rparr>"
proof -
  have v: "valid_Task rm_a" "valid_Task rm_b" "valid_Task rm_c"
    and p: "priority rm_a = None" "priority rm_b = None" "priority rm_c = None"
    by (simp_all add: valid_Task_def rm_a_def rm_b_def rm_c_def)
  then have hyp: "\<forall>t\<in>set [rm_a, rm_b, rm_c]. valid_Task t \<and> priority t = None"
    by simp
  have q: "priority dup1 \<noteq> None" "priority dup2 \<noteq> None"
    by (simp_all add: dup1_def dup2_def)
  then have hyp2: "[dup1, dup2] \<noteq> [] \<and> (\<forall>t\<in>set [dup1, dup2]. priority t \<noteq> None)"
    by simp
  have up: "[0..<length [rm_a, rm_b, rm_c]] = [0, 1, 2]"
    by (simp add: upt_rec)
  from priorities_of_constructed_set[of "[rm_a, rm_b, rm_c]"] hyp have
    "\<exists>self. TaskSet_init [rm_a, rm_b, rm_c] = Inr self \<and>
       map priority (tasks self) = map (\<lambda>i. Some (int i)) [0..<length [rm_a, rm_b, rm_c]] \<and>
       distinct (map priority (tasks self))"
    by blast
  then have first: "\<exists>self. TaskSet_init [rm_a, rm_b, rm_c] = Inr self \<and>
      map priority (tasks self) = [Some 0, Some 1, Some 2] \<and>
      distinct (map priority (tasks self))"
    unfolding up by simp
  from priorities_of_constructed_set[of "[dup1, dup2]"] hyp2 have
    "TaskSet_init [dup1, dup2] = Inr \<lparr>tasks = [dup1, dup2], sorted_flag = False\<rparr>"
    by blast
  with v p q first show ?thesis by blast
qed

text \<open>
  C9 as stated fails: a task with the default empty name comes back from the
  Rate-Monotonic assignment with a synthesized name.
\<close>

theorem rederived_task_counterexample:
  "valid_Task unnamed \<and> priority unnamed = None \<and> name unnamed = [] \<and>
   TaskSet_init [unnamed] =
     Inr \<lparr>tasks = [\<lparr>C = 2, T = 10, D = 10, name = tau @ ''1'', priority = Some 0\<rparr>],
          sorted_flag = True\<rparr> \<and>
   tau @ ''1'' \<noteq> name unnamed"
proof -
  have "TaskSet_init [unnamed] =
     Inr \<lparr>tasks = [\<lparr>C = 2, T = 10, D = 10, name = tau @ ''1'', priority = Some 0\<rparr>],
          sorted_flag = True\<rparr>"
    by code_simp
  then show ?thesis
    by (simp add: valid_Task_def unnamed_def tau_def)
qed

text \<open>
  C9, amended. For valid tasks without priorities, the task at index \<open>i\<close> of the new
  list has the fields \<open>C\<close>, \<open>T\<close> and \<open>D\<close> of the task at index \<open>i\<close> of the input sorted by
  period, its name when that name is not empty and otherwise the synthesized name
  (tau followed by \<open>i + 1\<close>), and the priority \<open>i\<close>. (The new list is a new value; the
  input list is not changed.)
\<close>

theorem rederived_task_fields:
  assumes "\<forall>t\<in>set ts. valid_Task t \<and> priority t = None"
  shows "\<exists>self. TaskSet_init ts = Inr self \<and> length (tasks self) = length ts \<and>
           (\<forall>i<length ts.
              C (tasks self ! i) = C (sort_key T ts ! i) \<and>
              T (tasks self ! i) = T (sort_key T ts ! i) \<and>
              D (tasks self ! i) = D (sort_key T ts ! i) \<and>
              name (tasks self ! i) =
                (if name (sort_key T ts ! i) \<noteq> [] then name (sort_key T ts ! i)
                 else tau @ str_int (int i + 1)) \<and>
              priority (tasks self ! i) = Some (int i))"
proof (cases "ts = []")
  case True
  then show ?thesis by (simp add: TaskSet_init_def)
next
  case False
  define new where "new = map (\<lambda>(i, task). rm_task i task) (enumerate 0 (sort_key T ts))"
  have init: "TaskSet_init ts = Inr \<lparr>tasks = new, sorted_flag = True\<rparr>"
    unfolding new_def using assms False by (rule TaskSet_init_rm)
  have "new ! i = rm_task i (sort_key T ts ! i)" if "i < length ts" for i
    using that unfolding new_def by (rule rm_nth)
  then have "\<forall>i<length ts. new ! i = rm_task i (sort_key T ts ! i)" by simp
  moreover have "length new = length ts" by (simp add: new_def)
  ultimately show ?thesis using init
    by (intro exI[where x = "\<lparr>tasks = new, sorted_flag = True\<rparr>"]) (simp add: rm_task_def)
qed

theorem rederived_task_fields_witness:
  "valid_Task unnamed \<and> valid_Task rm_c \<and> priority unnamed = None \<and> priority rm_c = None \<and>
   TaskSet_init [unnamed, rm_c] =
     Inr \<lparr>tasks = [rm_c\<lparr>priority := Some 0\<rparr>,
                   unnamed\<lparr>name := tau @ ''2'', priority := Some 1\<rparr>], sorted_flag = True\<rparr> \<and>
   (\<exists>self. TaskSet_init [unnamed, rm_c] = Inr self \<and>
      length (tasks self) = length [unnamed, rm_c] \<and>
      C (tasks self ! 0) = C (sort_key T [unnamed, rm_c] ! 0))"
proof -
  have v: "valid_Task unnamed" "valid_Task rm_c"
    and p: "priority unnamed = None" "priority rm_c = None"
    by (simp_all add: valid_Task_def unnamed_def rm_c_def)
  then have hyp: "\<forall>t\<in>set [unnamed, rm_c]. valid_Task t \<and> priority t = None"
    by simp
  have run: "TaskSet_init [unnamed, rm_c] =
     Inr \<lparr>tasks = [rm_c\<lparr>priority := Some 0\<rparr>,
                   unnamed\<lparr>name := tau @ ''2'', priority := Some 1\<rparr>], sorted_flag = True\<rparr>"
    by code_simp
  from rederived_task_fields[OF hyp] obtain self where
    self: "TaskSet_init [unnamed, rm_c] = Inr self"
      "length (tasks self) = length [unnamed, rm_c]"
      "\<forall>i<length [unnamed, rm_c]. C (tasks self ! i) = C (sort_key T [unnamed, rm_c] ! i)"
    by blast
  from self(3)[rule_format, of 0] have "C (tasks self ! 0) = C (sort_key T [unnamed, rm_c] ! 0)"
    by simp
  with self(1,2) have "\<exists>self. TaskSet_init [unnamed, rm_c] = Inr self \<and>
      length (tasks self) = length [unnamed, rm_c] \<and>
      C (tasks self ! 0) = C (sort_key T [unnamed, rm_c] ! 0)"
    by blast
  with v p run show ?thesis by blast
qed

subsection \<open>Validation errors\<close>

lemma Task_init_error:
  assumes "Task_init c t d nm prio = Inl e"
  shows "exc_class e = ''ValueError'' \<and> (\<exists>rest. message e = Str ''Task '' # Str nm # rest)"
  using assms by (auto simp: Task_init_def split: if_splits option.splits)

lemma Task_init_fails_iff:
  "(\<exists>e. Task_init c t d nm prio = Inl e) \<longleftrightarrow>
     \<not> (0 < c \<and> 0 < t \<and> c \<le> t \<and> (case d of None \<Rightarrow> True | Some d' \<Rightarrow> 0 < d' \<and> d' \<le> t \<and> c \<le> d'))"
  by (auto simp: Task_init_def split: option.splits)

lemma TaskSet_init_mixed:
  assumes "a \<in> set ts" "priority a = None" "b \<in> set ts" "priority b \<noteq> None"
  shows "TaskSet_init ts =
           Inl (ValueError [Str ''Either all tasks must have priorities set, or none should.''])"
proof -
  from assms have "ts \<noteq> []" "\<not> list_all (\<lambda>t. priority t \<noteq> None) ts"
    "\<not> list_all (\<lambda>t. priority t = None) ts"
    by (auto simp: list_all_iff)
  then show ?thesis by (simp add: TaskSet_init_def)
qed

text \<open>
  C7 as stated fails: an invalid Task, a mixed task set and invalid generator arguments
  all raise the same class of exception.
\<close>

theorem error_kinds_counterexample:
  "raised_class (Task_init 11 10 None [] None) = Some ''ValueError'' \<and>
   raised_class (TaskSet_init mixed) = Some ''ValueError'' \<and>
   raised_class (uunifast 0 (1 / 2) (\<lambda>k. 0)) = Some ''ValueError'' \<and>
   raised_class (generate_taskset 5 (1 / 2) 100 50 1 1 (\<lambda>k. 0) (\<lambda>k. 0)) = Some ''ValueError''"
  by (simp add: raised_class_def Task_init_def TaskSet_init_def mixed_def dup1_def unnamed_def
      uunifast_def generate_taskset_def)

text \<open>
  C7, amended. Each of the three validations fails with a \<open>ValueError\<close>; what tells them
  apart is the message. A Task message starts with \<open>Task\<close> and the task's name; a task
  set that mixes tasks with and without priorities gives the message
  \<open>Either all tasks must have priorities set, or none should.\<close>; the generators give
  \<open>Number of tasks must be positive\<close>, \<open>Target utilization must be non-negative\<close>,
  \<open>Invalid period range\<close>, \<open>Invalid deadline factor range\<close> or
  \<open>Deadline factor cannot exceed 1.0 (D must be <= T)\<close>.
\<close>

theorem validation_errors:
  "(\<forall>e. Task_init c t d nm prio = Inl e \<longrightarrow>
      exc_class e = ''ValueError'' \<and> (\<exists>rest. message e = Str ''Task '' # Str nm # rest)) \<and>
   ((\<exists>a\<in>set ts. priority a = None) \<and> (\<exists>b\<in>set ts. priority b \<noteq> None) \<longrightarrow>
      TaskSet_init ts =
        Inl (ValueError [Str ''Either all tasks must have priorities set, or none should.''])) \<and>
   (n \<le> 0 \<longrightarrow> uunifast n u_total rng = Inl (ValueError [Str ''Number of tasks must be positive''])) \<and>
   (0 < n \<and> u_total < 0 \<longrightarrow>
      uunifast n u_total rng = Inl (ValueError [Str ''Target utilization must be non-negative''])) \<and>
   (period_min \<le> 0 \<or> period_max \<le> 0 \<or> period_min > period_max \<longrightarrow>
      generate_taskset n u_total period_min period_max deadline_factor_min deadline_factor_max
        rng_u rng = Inl (ValueError [Str ''Invalid period range''])) \<and>
   (0 < period_min \<and> period_min \<le> period_max \<and>
    (deadline_factor_min \<le> 0 \<or> deadline_factor_max < deadline_factor_min) \<longrightarrow>
      generate_taskset n u_total period_min period_max deadline_factor_min deadline_factor_max
        rng_u rng = Inl (ValueError [Str ''Invalid deadline factor range''])) \<and>
   (0 < period_min \<and> period_min \<le> period_max \<and>
    0 < deadline_factor_min \<and> deadline_factor_min \<le> deadline_factor_max \<and>
    1 < deadline_factor_max \<longrightarrow>
      generate_taskset n u_total period_min period_max deadline_factor_min deadline_factor_max
        rng_u rng = Inl (ValueError [Str ''Deadline factor cannot exceed 1.0 (D must be <= T)'']))"
proof (intro conjI allI impI)
  fix e assume "Task_init c t d nm prio = Inl e"
  then show "exc_class e = ''ValueError''" "\<exists>rest. message e = Str ''Task '' # Str nm # rest"
    using Task_init_error by blast+
next
  assume "(\<exists>a\<in>set ts. priority a = None) \<and> (\<exists>b\<in>set ts. priority b \<noteq> None)"
  then show "TaskSet_init ts =
        Inl (ValueError [Str ''Either all tasks must have priorities set, or none should.''])"
    using TaskSet_init_mixed by blast
next
  assume "n \<le> 0"
  then show "uunifast n u_total rng = Inl (ValueError [Str ''Number of tasks must be positive''])"
    by (simp add: uunifast_def)
next
  assume "0 < n \<and> u_total < 0"
  then show "uunifast n u_total rng =
      Inl (ValueError [Str ''Target utilization must be non-negative''])"
    by (simp add: uunifast_def)
next
  assume "period_min \<le> 0 \<or> period_max \<le> 0 \<or> period_min > period_max"
  then show "generate_taskset n u_total period_min period_max deadline_factor_min
      deadline_factor_max rng_u rng = Inl (ValueError [Str ''Invalid period range''])"
    by (simp add: generate_taskset_def)
next
  assume "0 < period_min \<and> period_min \<le> period_max \<and>
    (deadline_factor_min \<le> 0 \<or> deadline_factor_max < deadline_factor_min)"
  then show "generate_taskset n u_total period_min period_max deadline_factor_min
      deadline_factor_max rng_u rng = Inl (ValueError [Str ''Invalid deadline factor range''])"
    by (auto simp: generate_taskset_def)
next
  assume "0 < period_min \<and> period_min \<le> period_max \<and>
    0 < deadline_factor_min \<and> deadline_factor_min \<le> deadline_factor_max \<and>
    1 < deadline_factor_max"
  then show "generate_taskset n u_total period_min period_max deadline_factor_min
      deadline_factor_max rng_u rng =
      Inl (ValueError [Str ''Deadline factor cannot exceed 1.0 (D must be <= T)''])"
    by (auto simp: generate_taskset_def)
qed

theorem validation_errors_witness:
  "Task_init 11 10 None [] None =
     Inl (ValueError [Str ''Task '', Str [], Str '': C ('', Num 11,
                      Str '') cannot exceed T ('', Num 10, Str '')'']) \<and>
   priority unnamed = None \<and> priority dup1 \<noteq> None \<and>
   TaskSet_init mixed =
     Inl (ValueError [Str ''Either all tasks must have priorities set, or none should.'']) \<and>
   uunifast 0 (1 / 2) (\<lambda>k. 0) = Inl (ValueError [Str ''Number of tasks must be positive'']) \<and>
   uunifast 5 (- 1 / 10) (\<lambda>k. 0) =
     Inl (ValueError [Str ''Target utilization must be non-negative'']) \<and>
   generate_taskset 5 (1 / 2) 100 50 1 1 (\<lambda>k. 0) (\<lambda>k. 0) =
     Inl (ValueError [Str ''Invalid period range'']) \<and>
   generate_taskset 5 (1 / 2) 10 1000 1 (1 / 2) (\<lambda>k. 0) (\<lambda>k. 0) =
     Inl (ValueError [Str ''Invalid deadline factor range'']) \<and>
   generate_taskset 5 (1 / 2) 10 1000 1 2 (\<lambda>k. 0) (\<lambda>k. 0) =
     Inl (ValueError [Str ''Deadline factor cannot exceed 1.0 (D must be <= T)''])"
proof -
  have task: "Task_init 11 10 None [] None =
     Inl (ValueError [Str ''Task '', Str [], Str '': C ('', Num 11,
                      Str '') cannot exceed T ('', Num 10, Str '')''])"
    by (simp add: Task_init_def)
  have p: "priority unnamed = None" "priority dup1 \<noteq> None"
    by (simp_all add: unnamed_def dup1_def)
  then have mix: "(\<exists>a\<in>set mixed. priority a = None) \<and> (\<exists>b\<in>set mixed. priority b \<noteq> None)"
    by (simp add: mixed_def)
  note v = validation_errors[of 11 10 None "[]" None mixed]
  from v[of 0 "1 / 2" "\<lambda>k. 0" 100 50 1 1 "\<lambda>k. 0"] mix have
    a: "TaskSet_init mixed =
       Inl (ValueError [Str ''Either all tasks must have priorities set, or none should.''])"
    and b: "uunifast 0 (1 / 2) (\<lambda>k. 0) = Inl (ValueError [Str ''Number of tasks must be positive''])"
    by simp_all
  from v[of 5 "- 1 / 10" "\<lambda>k. 0" 100 50 1 1 "\<lambda>k. 0"] have
    c: "uunifast 5 (- 1 / 10) (\<lambda>k. 0) =
       Inl (ValueError [Str ''Target utilization must be non-negative''])"
    by simp
  from v[of 5 "1 / 2" "\<lambda>k. 0" 100 50 1 1 "\<lambda>k. 0"] have
    d: "generate_taskset 5 (1 / 2) 100 50 1 1 (\<lambda>k. 0) (\<lambda>k. 0) =
       Inl (ValueError [Str ''Invalid period range''])"
    by simp
  from v[of 5 "1 / 2" "\<lambda>k. 0" 10 1000 1 "1 / 2" "\<lambda>k. 0"] have
    e: "generate_taskset 5 (1 / 2) 10 1000 1 (1 / 2) (\<lambda>k. 0) (\<lambda>k. 0) =
       Inl (ValueError [Str ''Invalid deadline factor range''])"
    by simp
  from v[of 5 "1 / 2" "\<lambda>k. 0" 10 1000 1 2 "\<lambda>k. 0"] have
    f: "generate_taskset 5 (1 / 2) 10 1000 1 2 (\<lambda>k. 0) (\<lambda>k. 0) =
       Inl (ValueError [Str ''Deadline factor cannot exceed 1.0 (D must be <= T)''])"
    by simp
  from task p a b c d e f show ?thesis by blast
qed

subsection \<open>Analysis of a whole task set\<close>

lemma get_sorted_tasks_result:
  "fst (get_sorted_tasks self) = tasks (snd (get_sorted_tasks self)) \<and>
   sorted_flag (snd (get_sorted_tasks self)) \<and>
   set (fst (get_sorted_tasks self)) = set (tasks self)"
  by (simp add: get_sorted_tasks_def Let_def)














end
